theory Spec2Isabelle
  imports Main
begin

section \<open>The LEG interpreter (leg.py)\<close>

subsection \<open>Enumerations and run-time values\<close>

text \<open>
  \<open>Opcodes\<close> and \<open>Addresses\<close> are plain Python \<open>Enum\<close> classes (not \<open>IntEnum\<close>):
  a member is equal only to itself, never to the integer it wraps, and it supports
  no arithmetic.  The numeric code of each member is kept as a function.
\<close>

datatype Opcodes = ADD | ADDI | AND | ANDI | IFEQ | IFNE | LOAD | SAVE

fun Opcodes_value :: "Opcodes \<Rightarrow> int" where
  "Opcodes_value ADD = 0"
| "Opcodes_value ADDI = 128"
| "Opcodes_value AND = 1"
| "Opcodes_value ANDI = 129"
| "Opcodes_value IFEQ = 32"
| "Opcodes_value IFNE = 33"
| "Opcodes_value LOAD = 48"
| "Opcodes_value SAVE = 49"

datatype Addresses = REG0 | REG1 | REG2 | REG3 | REG4 | REG5 | PC | IO

fun Addresses_value :: "Addresses \<Rightarrow> int" where
  "Addresses_value REG0 = 0"
| "Addresses_value REG1 = 1"
| "Addresses_value REG2 = 2"
| "Addresses_value REG3 = 3"
| "Addresses_value REG4 = 4"
| "Addresses_value REG5 = 5"
| "Addresses_value PC = 6"
| "Addresses_value IO = 7"

text \<open>
  A slot of the program array, an operand and a register content is a Python object.
  The demonstration program of the source fills the array with \<open>Opcodes\<close> members,
  \<open>Addresses\<close> members and integer literals, so these are the three kinds of value.
  Python integers are unbounded.  Equality of the datatype is Python's \<open>==\<close> on
  these objects.
\<close>

datatype pyval = IntV int | OpV Opcodes | AddrV Addresses

datatype error = TypeError | IndexError | KeyError

text \<open>\<open>a + b\<close> and \<open>a & b\<close>: defined on two integers, a \<open>TypeError\<close> on an enum member.\<close>

fun py_add :: "pyval \<Rightarrow> pyval \<Rightarrow> error + int" where
  "py_add (IntV a) (IntV b) = Inr (a + b)"
| "py_add _ _ = Inl TypeError"

fun py_and :: "pyval \<Rightarrow> pyval \<Rightarrow> error + int" where
  "py_and (IntV a) (IntV b) = Inr (and a b)"
| "py_and _ _ = Inl TypeError"

text \<open>
  \<open>xs[i]\<close> on a list: an integer index inside the list reads it, a negative one counts
  from the end, any other integer is an \<open>IndexError\<close>; an enum member is no index.
\<close>

fun py_index :: "pyval list \<Rightarrow> pyval \<Rightarrow> error + pyval" where
  "py_index xs (IntV i) =
     (if 0 \<le> i \<and> i < int (length xs) then Inr (xs ! nat i)
      else if - int (length xs) \<le> i \<and> i < 0 then Inr (xs ! nat (int (length xs) + i))
      else Inl IndexError)"
| "py_index xs _ = Inl TypeError"

subsection \<open>The machine\<close>

text \<open>
  The fields of class \<open>LEG\<close> that its methods read or write.  \<open>registers\<close> is a
  dictionary keyed by \<open>Addresses\<close> members.  The \<open>input\<close> and \<open>output\<close> handles are
  stored by the constructor and never used again.
\<close>

record LEG =
  program :: "pyval list"
  ram :: "int list"
  stack :: "int list"
  registers :: "Addresses \<rightharpoonup> pyval"
  jumping :: bool

definition LEG_init :: "pyval list \<Rightarrow> LEG" where
  "LEG_init prog =
     \<lparr> program = prog,
       ram = replicate 255 0,
       stack = replicate 255 0,
       registers = [REG0 \<mapsto> IntV 0, REG1 \<mapsto> IntV 0, REG2 \<mapsto> IntV 0, REG3 \<mapsto> IntV 0,
                    REG4 \<mapsto> IntV 0, REG5 \<mapsto> IntV 0, PC \<mapsto> IntV 0],
       jumping = False \<rparr>"

text \<open>
  \<open>_get\<close>: an argument that is a key of the register dictionary reads it; the IO
  address and everything else read 0.
\<close>

fun leg_get :: "LEG \<Rightarrow> pyval \<Rightarrow> pyval" where
  "leg_get s (AddrV a) =
     (case registers s a of
        Some reg \<Rightarrow> reg
      | None \<Rightarrow> (if a = IO then IntV 0 else IntV 0))"
| "leg_get s _ = IntV 0"

text \<open>
  \<open>_set\<close>: an argument that is a key of the register dictionary is overwritten;
  nothing happens otherwise.  The method's return value 0 is dropped by every caller.
\<close>

fun leg_set :: "LEG \<Rightarrow> pyval \<Rightarrow> pyval \<Rightarrow> LEG" where
  "leg_set s (AddrV a) v =
     (case registers s a of
        Some _ \<Rightarrow> s\<lparr>registers := (registers s)(a \<mapsto> v)\<rparr>
      | None \<Rightarrow> s)"
| "leg_set s _ v = s"

subsection \<open>ALU and jumps\<close>

definition op_add :: "LEG \<Rightarrow> pyval \<Rightarrow> pyval \<Rightarrow> pyval \<Rightarrow> error + LEG" where
  "op_add s arg1_reg arg2_reg res_reg =
     (let a = leg_get s arg1_reg; b = leg_get s arg2_reg in
      case py_add a b of
        Inl e \<Rightarrow> Inl e
      | Inr t \<Rightarrow> Inr (leg_set s res_reg (IntV (t mod 255))))"

definition op_addi :: "LEG \<Rightarrow> pyval \<Rightarrow> pyval \<Rightarrow> pyval \<Rightarrow> error + LEG" where
  "op_addi s arg1_reg arg2_im res_reg =
     (let a = leg_get s arg1_reg; b = arg2_im in
      case py_add a b of
        Inl e \<Rightarrow> Inl e
      | Inr t \<Rightarrow> Inr (leg_set s res_reg (IntV (t mod 255))))"

definition op_and :: "LEG \<Rightarrow> pyval \<Rightarrow> pyval \<Rightarrow> pyval \<Rightarrow> error + LEG" where
  "op_and s arg1_reg arg2_reg res_reg =
     (let a = leg_get s arg1_reg; b = leg_get s arg2_reg in
      case py_and a b of
        Inl e \<Rightarrow> Inl e
      | Inr res \<Rightarrow> Inr (leg_set s res_reg (IntV res)))"

definition op_andi :: "LEG \<Rightarrow> pyval \<Rightarrow> pyval \<Rightarrow> pyval \<Rightarrow> error + LEG" where
  "op_andi s arg1_reg arg2_im res_reg =
     (let a = leg_get s arg1_reg; b = arg2_im in
      case py_and a b of
        Inl e \<Rightarrow> Inl e
      | Inr res \<Rightarrow> Inr (leg_set s res_reg (IntV res)))"

text \<open>\<open>_op_ifeq\<close> stores the jump address in the dictionary directly, not through \<open>_set\<close>.\<close>

definition op_ifeq :: "LEG \<Rightarrow> pyval \<Rightarrow> pyval \<Rightarrow> pyval \<Rightarrow> error + LEG" where
  "op_ifeq s arg1_reg arg2_reg jump_addr =
     (let a = leg_get s arg1_reg; b = leg_get s arg2_reg in
      if a = b
      then Inr (s\<lparr>registers := (registers s)(PC \<mapsto> jump_addr), jumping := True\<rparr>)
      else Inr s)"

subsection \<open>Dispatch and clock\<close>

text \<open>The dispatch table \<open>_opcodes\<close>: five of the eight opcodes have a handler.\<close>

definition opcodes ::
  "Opcodes \<rightharpoonup> (LEG \<Rightarrow> pyval \<Rightarrow> pyval \<Rightarrow> pyval \<Rightarrow> error + LEG)" where
  "opcodes = [ADD \<mapsto> op_add, ADDI \<mapsto> op_addi, AND \<mapsto> op_and, ANDI \<mapsto> op_andi,
              IFEQ \<mapsto> op_ifeq]"

text \<open>
  \<open>_apply\<close>: \<open>opcode in self._opcodes\<close> holds for the five members only; an integer or an
  \<open>Addresses\<close> member is not a key of the table.
\<close>

fun apply_op :: "LEG \<Rightarrow> pyval \<Rightarrow> pyval \<Rightarrow> pyval \<Rightarrow> pyval \<Rightarrow> error + LEG" where
  "apply_op s (OpV c) arg1 arg2 arg3 =
     (case opcodes c of
        Some op \<Rightarrow> op s arg1 arg2 arg3
      | None \<Rightarrow> Inr s)"
| "apply_op s _ arg1 arg2 arg3 = Inr s"

text \<open>
  \<open>_read_program\<close>: four reads of the program list, at \<open>pc\<close>, \<open>pc + 1\<close>, \<open>pc + 2\<close> and
  \<open>pc + 3\<close>, in this order.  The first read fails on a \<open>pc\<close> that is no integer, so
  the three sums are sums of integers.
\<close>

definition read_program :: "LEG \<Rightarrow> error + (pyval \<times> pyval \<times> pyval \<times> pyval)" where
  "read_program s =
     (case registers s PC of
        None \<Rightarrow> Inl KeyError
      | Some pc \<Rightarrow>
         (case py_index (program s) pc of
            Inl e \<Rightarrow> Inl e
          | Inr opcode \<Rightarrow>
             (case pc of
                IntV i \<Rightarrow>
                 (case py_index (program s) (IntV (i + 1)) of
                    Inl e \<Rightarrow> Inl e
                  | Inr arg1 \<Rightarrow>
                     (case py_index (program s) (IntV (i + 2)) of
                        Inl e \<Rightarrow> Inl e
                      | Inr arg2 \<Rightarrow>
                         (case py_index (program s) (IntV (i + 3)) of
                            Inl e \<Rightarrow> Inl e
                          | Inr arg3 \<Rightarrow> Inr (opcode, arg1, arg2, arg3))))
              | _ \<Rightarrow> Inl TypeError)))"

definition tick :: "LEG \<Rightarrow> error + LEG" where
  "tick s =
     (case read_program s of
        Inl e \<Rightarrow> Inl e
      | Inr (opcode, arg1, arg2, arg3) \<Rightarrow>
         (case apply_op s opcode arg1 arg2 arg3 of
            Inl e \<Rightarrow> Inl e
          | Inr s1 \<Rightarrow>
             if \<not> jumping s1
             then (case registers s1 PC of
                     None \<Rightarrow> Inl KeyError
                   | Some pc \<Rightarrow>
                      (case py_add pc (IntV 4) of
                         Inl e \<Rightarrow> Inl e
                       | Inr t \<Rightarrow> Inr (s1\<lparr>registers := (registers s1)(PC \<mapsto> IntV (t mod 255))\<rparr>)))
             else Inr (s1\<lparr>jumping := False\<rparr>)))"

subsection \<open>The register invariant\<close>

text \<open>
  Every value stored in the register dictionary is an integer in the range from 0
  up to, but excluding, 255.
\<close>

fun in_range :: "pyval \<Rightarrow> bool" where
  "in_range (IntV v) = (0 \<le> v \<and> v < 255)"
| "in_range _ = False"

definition all_addresses :: "Addresses list" where
  "all_addresses = [REG0, REG1, REG2, REG3, REG4, REG5, PC, IO]"

definition register_invariant :: "LEG \<Rightarrow> bool" where
  "register_invariant s =
     list_all (\<lambda>a. case registers s a of None \<Rightarrow> True | Some v \<Rightarrow> in_range v) all_addresses"

subsection \<open>Example machines\<close>

text \<open>Machines built with the constructor and \<open>_set\<close>, used to run the results below.\<close>

definition example_add :: LEG where
  "example_add =
     leg_set (leg_set (LEG_init []) (AddrV REG0) (IntV 200)) (AddrV REG1) (IntV 100)"

definition example_addi :: LEG where
  "example_addi = leg_set (LEG_init []) (AddrV REG0) (IntV 250)"

definition example_and :: LEG where
  "example_and =
     leg_set (leg_set (LEG_init []) (AddrV REG0) (IntV 170)) (AddrV REG1) (IntV 15)"

text \<open>
  The first four instructions of the demonstration program of the source, the IFEQ
  comparing REG2 with REG3; the literal \<open>0x10101010\<close> is 269488144.
\<close>

definition ifeq_program :: "pyval list" where
  "ifeq_program =
     [OpV ADDI, AddrV REG0, IntV 269488144, AddrV REG0,
      OpV ADDI, AddrV REG1, IntV 10, AddrV REG1,
      OpV AND, AddrV REG0, AddrV REG1, AddrV REG2,
      OpV IFEQ, AddrV REG2, AddrV REG3, IntV 0]"

definition example_ifeq_equal :: LEG where
  "example_ifeq_equal =
     leg_set (leg_set (leg_set (LEG_init ifeq_program) (AddrV REG2) (IntV 7))
       (AddrV REG3) (IntV 7)) (AddrV PC) (IntV 12)"

definition example_ifeq_unequal :: LEG where
  "example_ifeq_unequal =
     leg_set (leg_set (leg_set (LEG_init ifeq_program) (AddrV REG2) (IntV 7))
       (AddrV REG3) (IntV 8)) (AddrV PC) (IntV 12)"

text \<open>A machine at a reserved opcode, and one whose ADD names PC as destination.\<close>

definition example_load :: LEG where
  "example_load = LEG_init [OpV LOAD, AddrV REG0, AddrV REG1, AddrV REG2]"

definition example_add_pc :: LEG where
  "example_add_pc =
     leg_set (leg_set (LEG_init [OpV ADD, AddrV REG0, AddrV REG1, AddrV PC])
       (AddrV REG0) (IntV 200)) (AddrV REG1) (IntV 100)"

text \<open>The keys of the register dictionary, as the constructor creates it.\<close>

definition register_keys :: "LEG \<Rightarrow> bool" where
  "register_keys s = (dom (registers s) = {REG0, REG1, REG2, REG3, REG4, REG5, PC})"

text \<open>Machines at a taken IFEQ whose target is 255 and 254.\<close>

definition example_ifeq_255 :: LEG where
  "example_ifeq_255 = LEG_init [OpV IFEQ, AddrV REG0, AddrV REG0, IntV 255]"

definition example_ifeq_254 :: LEG where
  "example_ifeq_254 = LEG_init [OpV IFEQ, AddrV REG0, AddrV REG0, IntV 254]"

text \<open>Machines with PC at 252 in a program of 255 and of 256 slots, all 0.\<close>

definition example_255 :: LEG where
  "example_255 = leg_set (LEG_init (replicate 255 (IntV 0))) (AddrV PC) (IntV 252)"

definition example_256 :: LEG where
  "example_256 = leg_set (LEG_init (replicate 256 (IntV 0))) (AddrV PC) (IntV 252)"

section \<open>Properties\<close>

subsection \<open>Writing a register\<close>

lemma leg_set_registers:
  "registers (leg_set s dest v) r =
     (if dest = AddrV r \<and> registers s r \<noteq> None then Some v else registers s r)"
  by (cases dest) (auto split: option.splits)

lemma leg_set_others:
  "jumping (leg_set s dest v) = jumping s"
  "program (leg_set s dest v) = program s"
  "ram (leg_set s dest v) = ram s"
  "stack (leg_set s dest v) = stack s"
  by (cases dest; simp split: option.splits)+

subsection \<open>Addition of two registers\<close>

text \<open>
  Claim C1.  Whenever the two source operands read as integers \<open>a\<close> and \<open>b\<close>, the ADD
  handler returns, a destination that names a register holds \<open>(a + b) mod 255\<close>
  afterwards, every register the destination does not name keeps its value, and
  the jump flag, the program and both memories are untouched.
\<close>

theorem op_add_mod_255:
  assumes "leg_get s src1 = IntV a" and "leg_get s src2 = IntV b"
  shows "\<exists>s'. op_add s src1 src2 dest = Inr s' \<and>
          (\<forall>r. dest = AddrV r \<and> registers s r \<noteq> None \<longrightarrow>
                 registers s' r = Some (IntV ((a + b) mod 255))) \<and>
          (\<forall>r. dest \<noteq> AddrV r \<longrightarrow> registers s' r = registers s r) \<and>
          jumping s' = jumping s \<and> program s' = program s \<and>
          ram s' = ram s \<and> stack s' = stack s"
  using assms
  by (simp add: op_add_def leg_set_registers leg_set_others del: leg_set.simps)

theorem op_add_mod_255_witness:
  "leg_get example_add (AddrV REG0) = IntV 200 \<and>
   leg_get example_add (AddrV REG1) = IntV 100 \<and>
   registers example_add REG2 \<noteq> None \<and>
   (\<exists>s'. op_add example_add (AddrV REG0) (AddrV REG1) (AddrV REG2) = Inr s' \<and>
         registers s' REG2 = Some (IntV 45) \<and>
         registers s' REG0 = Some (IntV 200) \<and>
         registers s' REG1 = Some (IntV 100) \<and>
         registers s' PC = Some (IntV 0))"
proof -
  have g0: "leg_get example_add (AddrV REG0) = IntV 200"
    and g1: "leg_get example_add (AddrV REG1) = IntV 100"
    and r2: "registers example_add REG2 \<noteq> None"
    by (simp_all add: example_add_def LEG_init_def)
  have r: "registers example_add REG0 = Some (IntV 200)"
    "registers example_add REG1 = Some (IntV 100)"
    "registers example_add PC = Some (IntV 0)"
    by (simp_all add: example_add_def LEG_init_def)
  from op_add_mod_255 [OF g0 g1, of "AddrV REG2"] obtain s' where
    s': "op_add example_add (AddrV REG0) (AddrV REG1) (AddrV REG2) = Inr s'"
      "\<forall>r. AddrV REG2 = AddrV r \<and> registers example_add r \<noteq> None \<longrightarrow>
           registers s' r = Some (IntV ((200 + 100) mod 255))"
      "\<forall>r. AddrV REG2 \<noteq> AddrV r \<longrightarrow> registers s' r = registers example_add r"
    by blast
  from s'(2) r2 have "registers s' REG2 = Some (IntV 45)" by simp
  moreover from s'(3) r have "registers s' REG0 = Some (IntV 200)"
    "registers s' REG1 = Some (IntV 100)" "registers s' PC = Some (IntV 0)" by simp_all
  ultimately show ?thesis using g0 g1 r2 s'(1) by blast
qed

subsection \<open>Addition of an immediate\<close>

text \<open>
  Claim C3.  Whenever the source operand reads as an integer \<open>a\<close> and the immediate is
  an integer, the ADDI handler returns and a destination that names a register holds
  \<open>(a + imm) mod 255\<close> afterwards; no other register changes.  At REG0 = 250 and
  immediate 10 the register ends at 5, the remainder of 260 by 255, and not at 4.
\<close>

theorem op_addi_mod_255:
  assumes "leg_get s src = IntV a"
  shows "\<exists>s'. op_addi s src (IntV imm) dest = Inr s' \<and>
          (\<forall>r. dest = AddrV r \<and> registers s r \<noteq> None \<longrightarrow>
                 registers s' r = Some (IntV ((a + imm) mod 255))) \<and>
          (\<forall>r. dest \<noteq> AddrV r \<longrightarrow> registers s' r = registers s r)"
  using assms
  by (simp add: op_addi_def leg_set_registers del: leg_set.simps)

theorem op_addi_mod_255_witness:
  "leg_get example_addi (AddrV REG0) = IntV 250 \<and>
   registers example_addi REG0 \<noteq> None \<and>
   (\<exists>s'. op_addi example_addi (AddrV REG0) (IntV 10) (AddrV REG0) = Inr s' \<and>
         registers s' REG0 = Some (IntV 5) \<and>
         registers s' REG0 \<noteq> Some (IntV 4) \<and>
         registers s' REG1 = registers example_addi REG1)"
proof -
  have g: "leg_get example_addi (AddrV REG0) = IntV 250"
    and r: "registers example_addi REG0 \<noteq> None"
    by (simp_all add: example_addi_def LEG_init_def)
  from op_addi_mod_255 [OF g, of 10 "AddrV REG0"] obtain s' where
    s': "op_addi example_addi (AddrV REG0) (IntV 10) (AddrV REG0) = Inr s'"
      "\<forall>r. AddrV REG0 = AddrV r \<and> registers example_addi r \<noteq> None \<longrightarrow>
           registers s' r = Some (IntV ((250 + 10) mod 255))"
      "\<forall>r. AddrV REG0 \<noteq> AddrV r \<longrightarrow> registers s' r = registers example_addi r"
    by blast
  from s'(2) r have "registers s' REG0 = Some (IntV 5)" by simp
  moreover from s'(3) have "registers s' REG1 = registers example_addi REG1" by simp
  ultimately show ?thesis using g r s'(1) by auto
qed

subsection \<open>Bitwise conjunction\<close>

text \<open>
  Claim C4.  Whenever the operands are integers \<open>a\<close> and \<open>b\<close> (read from registers for
  AND, the second one taken literally for ANDI), the handler returns and a destination
  that names a register holds the bitwise conjunction of \<open>a\<close> and \<open>b\<close>, unreduced;
  every bit of that value is a bit of both operands.
\<close>

theorem op_and_andi_exact:
  assumes "leg_get s src1 = IntV a"
  shows "(leg_get s src2 = IntV b \<longrightarrow>
           (\<exists>s'. op_and s src1 src2 dest = Inr s' \<and>
              (\<forall>r. dest = AddrV r \<and> registers s r \<noteq> None \<longrightarrow>
                     registers s' r = Some (IntV (and a b))) \<and>
              (\<forall>r. dest \<noteq> AddrV r \<longrightarrow> registers s' r = registers s r))) \<and>
         (\<exists>s'. op_andi s src1 (IntV b) dest = Inr s' \<and>
              (\<forall>r. dest = AddrV r \<and> registers s r \<noteq> None \<longrightarrow>
                     registers s' r = Some (IntV (and a b))) \<and>
              (\<forall>r. dest \<noteq> AddrV r \<longrightarrow> registers s' r = registers s r)) \<and>
         (\<forall>n. bit (and a b) n \<longrightarrow> bit a n \<and> bit b n)"
  using assms
  by (simp add: op_and_def op_andi_def leg_set_registers bit_and_iff del: leg_set.simps)

theorem op_and_andi_exact_witness:
  "leg_get example_and (AddrV REG0) = IntV 170 \<and>
   leg_get example_and (AddrV REG1) = IntV 15 \<and>
   registers example_and REG2 \<noteq> None \<and>
   (\<exists>s'. op_and example_and (AddrV REG0) (AddrV REG1) (AddrV REG2) = Inr s' \<and>
         registers s' REG2 = Some (IntV 10) \<and>
         registers s' REG0 = Some (IntV 170)) \<and>
   (\<exists>s'. op_andi example_and (AddrV REG0) (IntV 15) (AddrV REG2) = Inr s' \<and>
         registers s' REG2 = Some (IntV 10) \<and>
         registers s' REG0 = Some (IntV 170)) \<and>
   bit (and (170::int) 15) 1 \<and> bit (170::int) 1 \<and> bit (15::int) 1"
proof -
  have g0: "leg_get example_and (AddrV REG0) = IntV 170"
    and g1: "leg_get example_and (AddrV REG1) = IntV 15"
    and r2: "registers example_and REG2 \<noteq> None"
    and r0: "registers example_and REG0 = Some (IntV 170)"
    by (simp_all add: example_and_def LEG_init_def)
  note t = op_and_andi_exact [OF g0, of "AddrV REG1" 15 "AddrV REG2"]
  from t g1 obtain s' where
    s': "op_and example_and (AddrV REG0) (AddrV REG1) (AddrV REG2) = Inr s'"
      "\<forall>r. AddrV REG2 = AddrV r \<and> registers example_and r \<noteq> None \<longrightarrow>
           registers s' r = Some (IntV (and 170 15))"
      "\<forall>r. AddrV REG2 \<noteq> AddrV r \<longrightarrow> registers s' r = registers example_and r"
    by blast
  from t obtain s'' where
    s'': "op_andi example_and (AddrV REG0) (IntV 15) (AddrV REG2) = Inr s''"
      "\<forall>r. AddrV REG2 = AddrV r \<and> registers example_and r \<noteq> None \<longrightarrow>
           registers s'' r = Some (IntV (and 170 15))"
      "\<forall>r. AddrV REG2 \<noteq> AddrV r \<longrightarrow> registers s'' r = registers example_and r"
    by blast
  have b: "bit (and (170::int) 15) 1" by simp
  with t have bb: "bit (170::int) 1 \<and> bit (15::int) 1" by blast
  from s'(2) r2 have "registers s' REG2 = Some (IntV 10)" by simp
  moreover from s'(3) r0 have "registers s' REG0 = Some (IntV 170)" by simp
  moreover from s''(2) r2 have "registers s'' REG2 = Some (IntV 10)" by simp
  moreover from s''(3) r0 have "registers s'' REG0 = Some (IntV 170)" by simp
  ultimately show ?thesis using g0 g1 r2 s'(1) s''(1) b bb by blast
qed

subsection \<open>The clock\<close>

lemma read_program_pc:
  "read_program s = Inr ins \<Longrightarrow> \<exists>pc. registers s PC = Some (IntV pc)"
  by (auto simp: read_program_def split: option.splits sum.splits pyval.splits)

lemma tick_advance:
  assumes "read_program s = Inr (opcode, arg1, arg2, arg3)"
    and "apply_op s opcode arg1 arg2 arg3 = Inr s1"
    and "\<not> jumping s1" and "registers s1 PC = Some (IntV pc)"
  shows "tick s = Inr (s1\<lparr>registers := (registers s1)(PC \<mapsto> IntV ((pc + 4) mod 255))\<rparr>)"
  using assms by (simp add: tick_def)

lemma tick_jumped:
  assumes "read_program s = Inr (opcode, arg1, arg2, arg3)"
    and "apply_op s opcode arg1 arg2 arg3 = Inr s1"
    and "jumping s1"
  shows "tick s = Inr (s1\<lparr>jumping := False\<rparr>)"
  using assms by (simp add: tick_def)

subsection \<open>Conditional jump\<close>

text \<open>
  Claim C2.  A tick that fetches an IFEQ instruction with the jump flag clear: when
  the two operands read equal, the tick returns the machine with PC set to the
  target operand and nothing else changed; when they read different, the handler
  returns the machine as it was and the tick returns it with PC advanced to
  \<open>(pc + 4) mod 255\<close>.
\<close>

theorem tick_ifeq:
  assumes "read_program s = Inr (OpV IFEQ, A, B, target)" and "\<not> jumping s"
  shows "if leg_get s A = leg_get s B
         then tick s = Inr (s\<lparr>registers := (registers s)(PC \<mapsto> target)\<rparr>)
         else op_ifeq s A B target = Inr s \<and>
              (\<exists>pc. registers s PC = Some (IntV pc) \<and>
                 tick s = Inr (s\<lparr>registers := (registers s)(PC \<mapsto> IntV ((pc + 4) mod 255))\<rparr>))"
proof (cases "leg_get s A = leg_get s B")
  case True
  then have "apply_op s (OpV IFEQ) A B target =
      Inr (s\<lparr>registers := (registers s)(PC \<mapsto> target), jumping := True\<rparr>)"
    by (simp add: opcodes_def op_ifeq_def)
  from tick_jumped [OF assms(1) this] assms(2) True show ?thesis by simp
next
  case False
  then have h: "op_ifeq s A B target = Inr s" by (simp add: op_ifeq_def)
  then have a: "apply_op s (OpV IFEQ) A B target = Inr s" by (simp add: opcodes_def)
  from read_program_pc [OF assms(1)] obtain pc where pc: "registers s PC = Some (IntV pc)"
    by blast
  from tick_advance [OF assms(1) a assms(2) pc] pc h False show ?thesis by simp
qed

lemma example_ifeq_equal_fetch:
  "read_program example_ifeq_equal = Inr (OpV IFEQ, AddrV REG2, AddrV REG3, IntV 0)"
  by (simp add: read_program_def example_ifeq_equal_def LEG_init_def ifeq_program_def)

lemma example_ifeq_unequal_fetch:
  "read_program example_ifeq_unequal = Inr (OpV IFEQ, AddrV REG2, AddrV REG3, IntV 0)"
  by (simp add: read_program_def example_ifeq_unequal_def LEG_init_def ifeq_program_def)

theorem tick_ifeq_witness:
  "read_program example_ifeq_equal = Inr (OpV IFEQ, AddrV REG2, AddrV REG3, IntV 0) \<and>
   \<not> jumping example_ifeq_equal \<and>
   registers example_ifeq_equal PC = Some (IntV 12) \<and>
   leg_get example_ifeq_equal (AddrV REG2) = leg_get example_ifeq_equal (AddrV REG3) \<and>
   tick example_ifeq_equal =
     Inr (example_ifeq_equal\<lparr>registers := (registers example_ifeq_equal)(PC \<mapsto> IntV 0)\<rparr>) \<and>
   read_program example_ifeq_unequal = Inr (OpV IFEQ, AddrV REG2, AddrV REG3, IntV 0) \<and>
   \<not> jumping example_ifeq_unequal \<and>
   registers example_ifeq_unequal PC = Some (IntV 12) \<and>
   leg_get example_ifeq_unequal (AddrV REG2) \<noteq> leg_get example_ifeq_unequal (AddrV REG3) \<and>
   tick example_ifeq_unequal =
     Inr (example_ifeq_unequal\<lparr>registers := (registers example_ifeq_unequal)(PC \<mapsto> IntV 16)\<rparr>)"
proof -
  have j: "\<not> jumping example_ifeq_equal" "\<not> jumping example_ifeq_unequal"
    by (simp_all add: example_ifeq_equal_def example_ifeq_unequal_def LEG_init_def)
  have pc: "registers example_ifeq_equal PC = Some (IntV 12)"
    "registers example_ifeq_unequal PC = Some (IntV 12)"
    by (simp_all add: example_ifeq_equal_def example_ifeq_unequal_def LEG_init_def)
  have e: "leg_get example_ifeq_equal (AddrV REG2) = leg_get example_ifeq_equal (AddrV REG3)"
    by (simp add: example_ifeq_equal_def LEG_init_def)
  have n: "leg_get example_ifeq_unequal (AddrV REG2) \<noteq> leg_get example_ifeq_unequal (AddrV REG3)"
    by (simp add: example_ifeq_unequal_def LEG_init_def)
  from tick_ifeq [OF example_ifeq_equal_fetch j(1)] e
  have 1: "tick example_ifeq_equal =
     Inr (example_ifeq_equal\<lparr>registers := (registers example_ifeq_equal)(PC \<mapsto> IntV 0)\<rparr>)"
    by simp
  from tick_ifeq [OF example_ifeq_unequal_fetch j(2)] n pc(2)
  have 2: "tick example_ifeq_unequal =
     Inr (example_ifeq_unequal\<lparr>registers := (registers example_ifeq_unequal)(PC \<mapsto> IntV 16)\<rparr>)"
    by simp
  show ?thesis
    using example_ifeq_equal_fetch example_ifeq_unequal_fetch j pc e n 1 2 by blast
qed

subsection \<open>Opcodes without a handler\<close>

lemma opcodes_None_iff: "opcodes c = None \<longleftrightarrow> c \<in> {IFNE, LOAD, SAVE}"
  by (cases c) (simp_all add: opcodes_def)

text \<open>
  Claim C5.  A tick that fetches an instruction whose opcode slot has no entry in the
  dispatch table (IFNE, LOAD, SAVE, any integer, any address), with the jump flag
  clear: dispatch returns the machine unchanged, and the tick returns it with PC
  advanced to \<open>(pc + 4) mod 255\<close> and nothing else changed.
\<close>

theorem tick_unhandled_opcode:
  assumes "read_program s = Inr (opcode, arg1, arg2, arg3)"
    and "\<forall>c. opcode = OpV c \<longrightarrow> opcodes c = None"
    and "\<not> jumping s"
  shows "apply_op s opcode arg1 arg2 arg3 = Inr s \<and>
         (\<exists>pc. registers s PC = Some (IntV pc) \<and>
            tick s = Inr (s\<lparr>registers := (registers s)(PC \<mapsto> IntV ((pc + 4) mod 255))\<rparr>))"
proof -
  from assms(2) have a: "apply_op s opcode arg1 arg2 arg3 = Inr s"
    by (cases opcode) simp_all
  from read_program_pc [OF assms(1)] obtain pc where pc: "registers s PC = Some (IntV pc)"
    by blast
  from tick_advance [OF assms(1) a assms(3) pc] a pc show ?thesis by simp
qed

theorem tick_unhandled_opcode_witness:
  "read_program example_load = Inr (OpV LOAD, AddrV REG0, AddrV REG1, AddrV REG2) \<and>
   opcodes LOAD = None \<and>
   \<not> jumping example_load \<and>
   registers example_load PC = Some (IntV 0) \<and>
   apply_op example_load (OpV LOAD) (AddrV REG0) (AddrV REG1) (AddrV REG2) = Inr example_load \<and>
   tick example_load = Inr (example_load\<lparr>registers := (registers example_load)(PC \<mapsto> IntV 4)\<rparr>)"
proof -
  have f: "read_program example_load = Inr (OpV LOAD, AddrV REG0, AddrV REG1, AddrV REG2)"
    by (simp add: read_program_def example_load_def LEG_init_def)
  have n: "\<forall>c. OpV LOAD = OpV c \<longrightarrow> opcodes c = None"
    by (simp add: opcodes_def)
  have j: "\<not> jumping example_load" and pc: "registers example_load PC = Some (IntV 0)"
    by (simp_all add: example_load_def LEG_init_def)
  have l: "opcodes LOAD = None" by (simp add: opcodes_def)
  from tick_unhandled_opcode [OF f n j] pc f l j show ?thesis by simp
qed

subsection \<open>The jump flag\<close>

text \<open>
  Claim C9.  Every tick that returns leaves the jump flag false, whatever the
  instruction did and whatever the flag was before.
\<close>

theorem tick_clears_jumping:
  assumes "tick s = Inr s'"
  shows "\<not> jumping s'"
  using assms
  by (auto simp: tick_def split: sum.splits prod.splits option.splits if_splits)

theorem tick_clears_jumping_witness:
  "tick example_ifeq_equal =
     Inr (example_ifeq_equal\<lparr>registers := (registers example_ifeq_equal)(PC \<mapsto> IntV 0)\<rparr>) \<and>
   \<not> jumping (example_ifeq_equal\<lparr>registers := (registers example_ifeq_equal)(PC \<mapsto> IntV 0)\<rparr>)"
proof -
  have t: "tick example_ifeq_equal =
     Inr (example_ifeq_equal\<lparr>registers := (registers example_ifeq_equal)(PC \<mapsto> IntV 0)\<rparr>)"
    by (simp add: tick_def read_program_def example_ifeq_equal_def LEG_init_def
        ifeq_program_def opcodes_def op_ifeq_def)
  from tick_clears_jumping [OF t] t show ?thesis by simp
qed

text \<open>The constructor clears the flag, so it is clear whenever a tick begins.\<close>

lemma LEG_init_not_jumping: "\<not> jumping (LEG_init prog)"
  by (simp add: LEG_init_def)

subsection \<open>The keys of the register dictionary\<close>

text \<open>
  The constructor creates seven keys, and no method adds or removes one: the keys are
  the same after every handler and every tick.
\<close>

lemma register_keys_init: "register_keys (LEG_init prog)"
  unfolding register_keys_def LEG_init_def by auto

lemma register_keys_leg_set: "register_keys s \<Longrightarrow> register_keys (leg_set s dest v)"
proof (cases dest)
  case (AddrV a)
  assume k: "register_keys s"
  show ?thesis
  proof (cases "registers s a")
    case None
    with AddrV k show ?thesis by simp
  next
    case (Some w)
    then have "a \<in> dom (registers s)" by blast
    then have "insert a (dom (registers s)) = dom (registers s)" by blast
    with AddrV Some k show ?thesis by (simp add: register_keys_def)
  qed
qed simp_all

lemma alu_is_leg_set:
  "op_add s x y z = Inr s1 \<Longrightarrow> \<exists>v. s1 = leg_set s z v"
  "op_addi s x y z = Inr s1 \<Longrightarrow> \<exists>v. s1 = leg_set s z v"
  "op_and s x y z = Inr s1 \<Longrightarrow> \<exists>v. s1 = leg_set s z v"
  "op_andi s x y z = Inr s1 \<Longrightarrow> \<exists>v. s1 = leg_set s z v"
  unfolding op_add_def op_addi_def op_and_def op_andi_def Let_def
  by (auto split: sum.splits simp del: leg_set.simps)

lemma op_ifeq_cases:
  "op_ifeq s x y z = Inr s1 \<Longrightarrow>
     s1 = s \<or> s1 = s\<lparr>registers := (registers s)(PC \<mapsto> z), jumping := True\<rparr>"
  unfolding op_ifeq_def Let_def by (auto split: if_splits)

lemma apply_op_cases:
  assumes "apply_op s opcode x y z = Inr s1"
  shows "s1 = s \<or> (\<exists>v. s1 = leg_set s z v) \<or>
         s1 = s\<lparr>registers := (registers s)(PC \<mapsto> z), jumping := True\<rparr>"
proof (cases opcode)
  case (OpV c)
  show ?thesis
  proof (cases c)
    case ADD
    with OpV assms have "op_add s x y z = Inr s1" by (simp add: opcodes_def)
    from alu_is_leg_set(1) [OF this] show ?thesis by blast
  next
    case ADDI
    with OpV assms have "op_addi s x y z = Inr s1" by (simp add: opcodes_def)
    from alu_is_leg_set(2) [OF this] show ?thesis by blast
  next
    case AND
    with OpV assms have "op_and s x y z = Inr s1" by (simp add: opcodes_def)
    from alu_is_leg_set(3) [OF this] show ?thesis by blast
  next
    case ANDI
    with OpV assms have "op_andi s x y z = Inr s1" by (simp add: opcodes_def)
    from alu_is_leg_set(4) [OF this] show ?thesis by blast
  next
    case IFEQ
    with OpV assms have "op_ifeq s x y z = Inr s1" by (simp add: opcodes_def)
    from op_ifeq_cases [OF this] show ?thesis by blast
  next
    case IFNE
    with OpV assms show ?thesis by (simp add: opcodes_def)
  next
    case LOAD
    with OpV assms show ?thesis by (simp add: opcodes_def)
  next
    case SAVE
    with OpV assms show ?thesis by (simp add: opcodes_def)
  qed
next
  case (IntV i)
  with assms show ?thesis by simp
next
  case (AddrV a)
  with assms show ?thesis by simp
qed

lemma register_keys_set_pc:
  assumes "register_keys s"
  shows "register_keys (s\<lparr>registers := (registers s)(PC \<mapsto> v)\<rparr>)"
proof -
  from assms have "PC \<in> dom (registers s)" unfolding register_keys_def by simp
  then have "insert PC (dom (registers s)) = dom (registers s)" by blast
  with assms show ?thesis by (simp add: register_keys_def)
qed

lemma register_keys_apply_op:
  assumes "register_keys s" and "apply_op s opcode x y z = Inr s1"
  shows "register_keys s1"
proof -
  from apply_op_cases [OF assms(2)] consider "s1 = s" | v where "s1 = leg_set s z v"
    | "s1 = s\<lparr>registers := (registers s)(PC \<mapsto> z), jumping := True\<rparr>" by blast
  then show ?thesis
  proof cases
    case 1
    with assms(1) show ?thesis by simp
  next
    case 2
    with register_keys_leg_set [OF assms(1)] show ?thesis by simp
  next
    case 3
    with register_keys_set_pc [OF assms(1), of z] show ?thesis
      by (simp add: register_keys_def)
  qed
qed

lemma py_add_Inr:
  "py_add x y = Inr t \<Longrightarrow> \<exists>a b. x = IntV a \<and> y = IntV b \<and> t = a + b"
  by (cases x; cases y) simp_all

lemma tick_cases:
  assumes "tick s = Inr s'"
  shows "\<exists>opcode x y z s1.
           read_program s = Inr (opcode, x, y, z) \<and> apply_op s opcode x y z = Inr s1 \<and>
           (jumping s1 \<and> s' = s1\<lparr>jumping := False\<rparr> \<or>
            \<not> jumping s1 \<and>
              (\<exists>pc. registers s1 PC = Some (IntV pc) \<and>
                 s' = s1\<lparr>registers := (registers s1)(PC \<mapsto> IntV ((pc + 4) mod 255))\<rparr>))"
proof -
  from assms obtain opcode x y z where f: "read_program s = Inr (opcode, x, y, z)"
    by (cases "read_program s") (auto simp: tick_def)
  with assms obtain s1 where a: "apply_op s opcode x y z = Inr s1"
    by (cases "apply_op s opcode x y z") (auto simp: tick_def)
  show ?thesis
  proof (cases "jumping s1")
    case True
    with assms f a have "s' = s1\<lparr>jumping := False\<rparr>" by (simp add: tick_def)
    with f a True show ?thesis by blast
  next
    case False
    with assms f a obtain v where v: "registers s1 PC = Some v"
      by (cases "registers s1 PC") (auto simp: tick_def)
    with assms f a False obtain t where t: "py_add v (IntV 4) = Inr t"
      by (cases "py_add v (IntV 4)") (auto simp: tick_def)
    with assms f a False v
    have s': "s' = s1\<lparr>registers := (registers s1)(PC \<mapsto> IntV (t mod 255))\<rparr>"
      by (simp add: tick_def)
    from py_add_Inr [OF t] obtain pc where "v = IntV pc" "t = pc + 4" by auto
    with v s' f a False show ?thesis by blast
  qed
qed

lemma register_keys_tick:
  assumes "register_keys s" and "tick s = Inr s'"
  shows "register_keys s'"
proof -
  from tick_cases [OF assms(2)] obtain opcode x y z s1 where
    a: "apply_op s opcode x y z = Inr s1" and
    r: "s' = s1\<lparr>jumping := False\<rparr> \<or>
        (\<exists>v. s' = s1\<lparr>registers := (registers s1)(PC \<mapsto> v)\<rparr>)"
    by blast
  note k = register_keys_apply_op [OF assms(1) a]
  from r show ?thesis
  proof
    assume "s' = s1\<lparr>jumping := False\<rparr>"
    with k show ?thesis by (simp add: register_keys_def)
  next
    assume "\<exists>v. s' = s1\<lparr>registers := (registers s1)(PC \<mapsto> v)\<rparr>"
    then obtain v where "s' = s1\<lparr>registers := (registers s1)(PC \<mapsto> v)\<rparr>" by blast
    with register_keys_set_pc [OF k, of v] show ?thesis by simp
  qed
qed

subsection \<open>Arguments that name no register\<close>

text \<open>
  Claim C6.  In a machine with the seven register keys of the constructor, an argument
  that is none of these seven addresses (the IO address, an integer, an opcode) reads
  as 0 and a write to it returns the machine as it was.  \<open>_get\<close> and \<open>_set\<close> have no
  failing step in the source (a membership test, a read guarded by it, a comparison),
  so both are total functions here and return for every argument.
\<close>

theorem get_set_unrecognized:
  assumes "register_keys s"
    and "arg \<notin> AddrV ` {REG0, REG1, REG2, REG3, REG4, REG5, PC}"
  shows "leg_get s arg = IntV 0 \<and> leg_set s arg v = s"
proof (cases arg)
  case (AddrV a)
  with assms(2) have "a \<notin> {REG0, REG1, REG2, REG3, REG4, REG5, PC}" by blast
  with assms(1) have "registers s a = None" unfolding register_keys_def by blast
  with AddrV show ?thesis by simp
qed simp_all

theorem get_set_unrecognized_witness:
  "register_keys (LEG_init []) \<and>
   AddrV IO \<notin> AddrV ` {REG0, REG1, REG2, REG3, REG4, REG5, PC} \<and>
   leg_get (LEG_init []) (AddrV IO) = IntV 0 \<and>
   leg_set (LEG_init []) (AddrV IO) (IntV 9) = LEG_init []"
proof -
  have k: "register_keys (LEG_init [])" by (rule register_keys_init)
  have n: "AddrV IO \<notin> AddrV ` {REG0, REG1, REG2, REG3, REG4, REG5, PC}" by simp
  from get_set_unrecognized [OF k n, of "IntV 9"] k n show ?thesis by simp
qed

subsection \<open>Arithmetic into the program counter\<close>

text \<open>
  Claim C10.  A tick that fetches ADD, ADDI, AND or ANDI with PC as destination, with
  the jump flag clear and integer operands: the handler returns the machine with the
  result \<open>r\<close> written to PC and the flag still clear, and the tick returns the
  machine with PC equal to \<open>(r + 4) mod 255\<close>.
\<close>

theorem alu_destination_pc:
  assumes "read_program s = Inr (opcode, x, y, AddrV PC)"
    and "\<not> jumping s"
    and "leg_get s x = IntV a"
  shows "(opcode = OpV ADD \<and> leg_get s y = IntV b \<longrightarrow>
            op_add s x y (AddrV PC) =
              Inr (s\<lparr>registers := (registers s)(PC \<mapsto> IntV ((a + b) mod 255))\<rparr>) \<and>
            tick s =
              Inr (s\<lparr>registers := (registers s)(PC \<mapsto> IntV (((a + b) mod 255 + 4) mod 255))\<rparr>)) \<and>
         (opcode = OpV ADDI \<and> y = IntV b \<longrightarrow>
            op_addi s x y (AddrV PC) =
              Inr (s\<lparr>registers := (registers s)(PC \<mapsto> IntV ((a + b) mod 255))\<rparr>) \<and>
            tick s =
              Inr (s\<lparr>registers := (registers s)(PC \<mapsto> IntV (((a + b) mod 255 + 4) mod 255))\<rparr>)) \<and>
         (opcode = OpV AND \<and> leg_get s y = IntV b \<longrightarrow>
            op_and s x y (AddrV PC) =
              Inr (s\<lparr>registers := (registers s)(PC \<mapsto> IntV (and a b))\<rparr>) \<and>
            tick s =
              Inr (s\<lparr>registers := (registers s)(PC \<mapsto> IntV ((and a b + 4) mod 255))\<rparr>)) \<and>
         (opcode = OpV ANDI \<and> y = IntV b \<longrightarrow>
            op_andi s x y (AddrV PC) =
              Inr (s\<lparr>registers := (registers s)(PC \<mapsto> IntV (and a b))\<rparr>) \<and>
            tick s =
              Inr (s\<lparr>registers := (registers s)(PC \<mapsto> IntV ((and a b + 4) mod 255))\<rparr>))"
proof -
  from read_program_pc [OF assms(1)] obtain pc where pc: "registers s PC = Some (IntV pc)"
    by blast
  have w: "leg_set s (AddrV PC) v = s\<lparr>registers := (registers s)(PC \<mapsto> v)\<rparr>" for v
    using pc by simp
  have adv: "tick s = Inr (s\<lparr>registers := (registers s)(PC \<mapsto> IntV ((r + 4) mod 255))\<rparr>)"
    if "apply_op s opcode x y (AddrV PC) = Inr (s\<lparr>registers := (registers s)(PC \<mapsto> IntV r)\<rparr>)"
    for r
    using tick_advance [OF assms(1) that, of r] assms(2) by simp
  have 1: ?thesis if "opcode = OpV ADD"
    using that assms(3) w adv [of "(a + b) mod 255"]
    by (auto simp: op_add_def opcodes_def simp del: leg_set.simps)
  have 2: ?thesis if "opcode = OpV ADDI"
    using that assms(3) w adv [of "(a + b) mod 255"]
    by (auto simp: op_addi_def opcodes_def simp del: leg_set.simps)
  have 3: ?thesis if "opcode = OpV AND"
    using that assms(3) w adv [of "and a b"]
    by (auto simp: op_and_def opcodes_def simp del: leg_set.simps)
  have 4: ?thesis if "opcode = OpV ANDI"
    using that assms(3) w adv [of "and a b"]
    by (auto simp: op_andi_def opcodes_def simp del: leg_set.simps)
  from 1 2 3 4 show ?thesis by blast
qed

lemma example_add_pc_fetch:
  "read_program example_add_pc = Inr (OpV ADD, AddrV REG0, AddrV REG1, AddrV PC)"
  by (simp add: read_program_def example_add_pc_def LEG_init_def)

theorem alu_destination_pc_witness:
  "read_program example_add_pc = Inr (OpV ADD, AddrV REG0, AddrV REG1, AddrV PC) \<and>
   \<not> jumping example_add_pc \<and>
   leg_get example_add_pc (AddrV REG0) = IntV 200 \<and>
   leg_get example_add_pc (AddrV REG1) = IntV 100 \<and>
   op_add example_add_pc (AddrV REG0) (AddrV REG1) (AddrV PC) =
     Inr (example_add_pc\<lparr>registers := (registers example_add_pc)(PC \<mapsto> IntV 45)\<rparr>) \<and>
   tick example_add_pc =
     Inr (example_add_pc\<lparr>registers := (registers example_add_pc)(PC \<mapsto> IntV 49)\<rparr>)"
proof -
  have j: "\<not> jumping example_add_pc"
    and g0: "leg_get example_add_pc (AddrV REG0) = IntV 200"
    and g1: "leg_get example_add_pc (AddrV REG1) = IntV 100"
    by (simp_all add: example_add_pc_def LEG_init_def)
  from alu_destination_pc [OF example_add_pc_fetch j g0, of 100] g1
  have "op_add example_add_pc (AddrV REG0) (AddrV REG1) (AddrV PC) =
     Inr (example_add_pc\<lparr>registers := (registers example_add_pc)(PC \<mapsto> IntV 45)\<rparr>) \<and>
   tick example_add_pc =
     Inr (example_add_pc\<lparr>registers := (registers example_add_pc)(PC \<mapsto> IntV 49)\<rparr>)"
    by simp
  with example_add_pc_fetch j g0 g1 show ?thesis by blast
qed

subsection \<open>Preservation of the register invariant\<close>

lemma register_invariant_iff:
  "register_invariant s \<longleftrightarrow> (\<forall>a v. registers s a = Some v \<longrightarrow> in_range v)"
proof -
  have "set all_addresses = UNIV"
  proof -
    have "a \<in> set all_addresses" for a by (cases a) (simp_all add: all_addresses_def)
    then show ?thesis by blast
  qed
  then show ?thesis
    by (auto simp: register_invariant_def list_all_iff split: option.splits)
qed

lemma in_range_IntV: "in_range v \<longleftrightarrow> (\<exists>i. v = IntV i \<and> 0 \<le> i \<and> i < 255)"
  by (cases v) simp_all

lemma register_invariant_get:
  assumes "register_invariant s"
  shows "in_range (leg_get s x)"
proof (cases x)
  case (AddrV a)
  with assms show ?thesis
    by (cases "registers s a") (auto simp: register_invariant_iff)
qed simp_all

lemma register_invariant_leg_set:
  assumes "register_invariant s" and "in_range v"
  shows "register_invariant (leg_set s z v)"
  using assms unfolding register_invariant_iff
  by (simp add: leg_set_registers del: leg_set.simps)

lemma register_invariant_set_pc:
  assumes "register_invariant s" and "in_range v"
  shows "register_invariant (s\<lparr>registers := (registers s)(PC \<mapsto> v)\<rparr>)"
  using assms unfolding register_invariant_iff by simp

lemma register_invariant_jumping:
  "register_invariant (s\<lparr>jumping := b\<rparr>) = register_invariant s"
  by (simp add: register_invariant_def)

lemma in_range_mod: "in_range (IntV (t mod 255))"
  by simp

lemma in_range_and: "in_range (IntV a) \<Longrightarrow> in_range (IntV (and a b))"
proof -
  assume "in_range (IntV a)"
  then have a: "0 \<le> a" "a < 255" by simp_all
  from a(1) have "and a b \<le> a" by (rule AND_upper1)
  with a show ?thesis by simp
qed

lemma alu_invariant:
  assumes "register_invariant s"
  shows "\<exists>s'. op_add s x y z = Inr s' \<and> register_invariant s'"
    and "\<exists>s'. op_addi s x (IntV i) z = Inr s' \<and> register_invariant s'"
    and "\<exists>s'. op_and s x y z = Inr s' \<and> register_invariant s'"
    and "\<exists>s'. op_andi s x (IntV i) z = Inr s' \<and> register_invariant s'"
proof -
  from register_invariant_get [OF assms, of x] obtain a where
    a: "leg_get s x = IntV a" "in_range (IntV a)" by (auto simp: in_range_IntV)
  from register_invariant_get [OF assms, of y] obtain b where
    b: "leg_get s y = IntV b" by (auto simp: in_range_IntV)
  note m = register_invariant_leg_set [OF assms in_range_mod]
  note n = register_invariant_leg_set [OF assms in_range_and [OF a(2)]]
  show "\<exists>s'. op_add s x y z = Inr s' \<and> register_invariant s'"
    using a b m by (simp add: op_add_def del: leg_set.simps in_range.simps)
  show "\<exists>s'. op_addi s x (IntV i) z = Inr s' \<and> register_invariant s'"
    using a m by (simp add: op_addi_def del: leg_set.simps in_range.simps)
  show "\<exists>s'. op_and s x y z = Inr s' \<and> register_invariant s'"
    using a b n by (simp add: op_and_def del: leg_set.simps in_range.simps)
  show "\<exists>s'. op_andi s x (IntV i) z = Inr s' \<and> register_invariant s'"
    using a n by (simp add: op_andi_def del: leg_set.simps in_range.simps)
qed

lemma ifeq_invariant:
  assumes "register_invariant s" and "in_range t"
  shows "\<exists>s'. op_ifeq s x y t = Inr s' \<and> register_invariant s'"
proof (cases "leg_get s x = leg_get s y")
  case True
  then have "op_ifeq s x y t =
      Inr (s\<lparr>registers := (registers s)(PC \<mapsto> t), jumping := True\<rparr>)"
    by (simp add: op_ifeq_def)
  moreover from register_invariant_set_pc [OF assms]
  have "register_invariant (s\<lparr>registers := (registers s)(PC \<mapsto> t), jumping := True\<rparr>)"
    by (simp add: register_invariant_def)
  ultimately show ?thesis by blast
next
  case False
  with assms(1) show ?thesis by (simp add: op_ifeq_def)
qed

lemma apply_op_keeps_pc:
  assumes "apply_op s opcode x y z = Inr s1" and "registers s PC \<noteq> None"
  shows "registers s1 PC \<noteq> None"
proof -
  from apply_op_cases [OF assms(1)] consider "s1 = s" | v where "s1 = leg_set s z v"
    | "s1 = s\<lparr>registers := (registers s)(PC \<mapsto> z), jumping := True\<rparr>" by blast
  then show ?thesis
  proof cases
    case 1
    with assms(2) show ?thesis by simp
  next
    case 2
    with assms(2) show ?thesis by (simp add: leg_set_registers del: leg_set.simps)
  next
    case 3
    then show ?thesis by simp
  qed
qed

lemma apply_op_invariant:
  assumes "register_invariant s"
    and "opcode = OpV ADDI \<or> opcode = OpV ANDI \<longrightarrow> (\<exists>i. y = IntV i)"
    and "opcode = OpV IFEQ \<longrightarrow> in_range z"
  shows "\<exists>s1. apply_op s opcode x y z = Inr s1 \<and> register_invariant s1"
proof (cases opcode)
  case (OpV c)
  show ?thesis
  proof (cases c)
    case ADD
    with OpV alu_invariant(1) [OF assms(1), of x y z] show ?thesis
      by (simp add: opcodes_def)
  next
    case ADDI
    with OpV assms(2) obtain i where "y = IntV i" by blast
    with OpV ADDI alu_invariant(2) [OF assms(1), of x i z] show ?thesis
      by (simp add: opcodes_def)
  next
    case AND
    with OpV alu_invariant(3) [OF assms(1), of x y z] show ?thesis
      by (simp add: opcodes_def)
  next
    case ANDI
    with OpV assms(2) obtain i where "y = IntV i" by blast
    with OpV ANDI alu_invariant(4) [OF assms(1), of x i z] show ?thesis
      by (simp add: opcodes_def)
  next
    case IFEQ
    with OpV assms(3) have "in_range z" by blast
    from ifeq_invariant [OF assms(1) this, of x y] OpV IFEQ show ?thesis
      by (simp add: opcodes_def)
  next
    case IFNE
    with OpV assms(1) show ?thesis by (simp add: opcodes_def)
  next
    case LOAD
    with OpV assms(1) show ?thesis by (simp add: opcodes_def)
  next
    case SAVE
    with OpV assms(1) show ?thesis by (simp add: opcodes_def)
  qed
next
  case (IntV i)
  with assms(1) show ?thesis by simp
next
  case (AddrV a)
  with assms(1) show ?thesis by simp
qed

lemma tick_invariant:
  assumes "register_invariant s"
    and "read_program s = Inr (opcode, x, y, z)"
    and "opcode = OpV ADDI \<or> opcode = OpV ANDI \<longrightarrow> (\<exists>i. y = IntV i)"
    and "opcode = OpV IFEQ \<longrightarrow> in_range z"
  shows "\<exists>s'. tick s = Inr s' \<and> register_invariant s'"
proof -
  from apply_op_invariant [OF assms(1,3,4), of x] obtain s1 where
    a: "apply_op s opcode x y z = Inr s1" and i: "register_invariant s1" by blast
  show ?thesis
  proof (cases "jumping s1")
    case True
    from tick_jumped [OF assms(2) a True] i show ?thesis
      by (simp add: register_invariant_jumping)
  next
    case False
    from read_program_pc [OF assms(2)] have "registers s PC \<noteq> None" by auto
    from apply_op_keeps_pc [OF a this] obtain v where v: "registers s1 PC = Some v" by blast
    with i have "in_range v" unfolding register_invariant_iff by blast
    then obtain pc where "v = IntV pc" by (auto simp: in_range_IntV)
    with v have pc: "registers s1 PC = Some (IntV pc)" by simp
    from tick_advance [OF assms(2) a False pc]
      register_invariant_set_pc [OF i in_range_mod, of "pc + 4"]
    show ?thesis by simp
  qed
qed

text \<open>
  Claim C7, as amended.  From a machine whose stored values all lie in the range from
  0 up to 254, every ALU handler returns a machine with the same property, for any
  operands and any integer immediate; IFEQ does when its jump target lies in that
  range; and a tick does for every fetched instruction whose ADDI or ANDI immediate
  is an integer and whose IFEQ target lies in that range.  A taken IFEQ stores its
  target as it is, so the range of the target is needed.
\<close>

theorem register_invariant_preserved:
  assumes "register_invariant s"
  shows "(\<exists>s'. op_add s x y z = Inr s' \<and> register_invariant s') \<and>
         (\<exists>s'. op_addi s x (IntV i) z = Inr s' \<and> register_invariant s') \<and>
         (\<exists>s'. op_and s x y z = Inr s' \<and> register_invariant s') \<and>
         (\<exists>s'. op_andi s x (IntV i) z = Inr s' \<and> register_invariant s') \<and>
         (in_range t \<longrightarrow> (\<exists>s'. op_ifeq s x y t = Inr s' \<and> register_invariant s')) \<and>
         (read_program s = Inr (opcode, a, b, c) \<and>
          (opcode = OpV ADDI \<or> opcode = OpV ANDI \<longrightarrow> (\<exists>i. b = IntV i)) \<and>
          (opcode = OpV IFEQ \<longrightarrow> in_range c) \<longrightarrow>
            (\<exists>s'. tick s = Inr s' \<and> register_invariant s'))"
proof (intro conjI impI)
  show "\<exists>s'. op_add s x y z = Inr s' \<and> register_invariant s'"
    by (rule alu_invariant(1) [OF assms])
  show "\<exists>s'. op_addi s x (IntV i) z = Inr s' \<and> register_invariant s'"
    by (rule alu_invariant(2) [OF assms])
  show "\<exists>s'. op_and s x y z = Inr s' \<and> register_invariant s'"
    by (rule alu_invariant(3) [OF assms])
  show "\<exists>s'. op_andi s x (IntV i) z = Inr s' \<and> register_invariant s'"
    by (rule alu_invariant(4) [OF assms])
  show "\<exists>s'. op_ifeq s x y t = Inr s' \<and> register_invariant s'" if "in_range t"
    by (rule ifeq_invariant [OF assms that])
  show "\<exists>s'. tick s = Inr s' \<and> register_invariant s'"
    if "read_program s = Inr (opcode, a, b, c) \<and>
        (opcode = OpV ADDI \<or> opcode = OpV ANDI \<longrightarrow> (\<exists>i. b = IntV i)) \<and>
        (opcode = OpV IFEQ \<longrightarrow> in_range c)"
    using tick_invariant [OF assms, of opcode a b c] that by blast
qed

theorem register_invariant_preserved_witness:
  "register_invariant example_ifeq_254 \<and>
   in_range (IntV 254) \<and>
   read_program example_ifeq_254 = Inr (OpV IFEQ, AddrV REG0, AddrV REG0, IntV 254) \<and>
   (\<exists>s'. op_ifeq example_ifeq_254 (AddrV REG0) (AddrV REG0) (IntV 254) = Inr s' \<and>
         register_invariant s') \<and>
   (\<exists>s'. op_addi example_ifeq_254 (AddrV REG0) (IntV 300) (AddrV REG1) = Inr s' \<and>
         register_invariant s') \<and>
   (\<exists>s'. tick example_ifeq_254 = Inr s' \<and> register_invariant s')"
proof -
  have i: "register_invariant example_ifeq_254"
    by (simp add: register_invariant_def all_addresses_def example_ifeq_254_def LEG_init_def)
  have f: "read_program example_ifeq_254 = Inr (OpV IFEQ, AddrV REG0, AddrV REG0, IntV 254)"
    by (simp add: read_program_def example_ifeq_254_def LEG_init_def)
  have r: "in_range (IntV 254)" by simp
  from register_invariant_preserved [OF i, of "AddrV REG0" "AddrV REG0" "AddrV REG1" 300
      "IntV 254" "OpV IFEQ" "AddrV REG0" "AddrV REG0" "IntV 254"] f r
  have "(\<exists>s'. op_addi example_ifeq_254 (AddrV REG0) (IntV 300) (AddrV REG1) = Inr s' \<and>
           register_invariant s') \<and>
        (\<exists>s'. op_ifeq example_ifeq_254 (AddrV REG0) (AddrV REG0) (IntV 254) = Inr s' \<and>
           register_invariant s') \<and>
        (\<exists>s'. tick example_ifeq_254 = Inr s' \<and> register_invariant s')"
    by simp
  with i f r show ?thesis by simp
qed

text \<open>
  The claim C7 as stated fails: the byte 255 as target of a taken IFEQ is stored in
  PC unreduced, by the handler and by the tick.
\<close>

theorem jump_target_255_breaks_invariant:
  "register_invariant example_ifeq_255 \<and>
   read_program example_ifeq_255 = Inr (OpV IFEQ, AddrV REG0, AddrV REG0, IntV 255) \<and>
   op_ifeq example_ifeq_255 (AddrV REG0) (AddrV REG0) (IntV 255) =
     Inr (example_ifeq_255\<lparr>registers := (registers example_ifeq_255)(PC \<mapsto> IntV 255),
            jumping := True\<rparr>) \<and>
   tick example_ifeq_255 =
     Inr (example_ifeq_255\<lparr>registers := (registers example_ifeq_255)(PC \<mapsto> IntV 255)\<rparr>) \<and>
   \<not> register_invariant
       (example_ifeq_255\<lparr>registers := (registers example_ifeq_255)(PC \<mapsto> IntV 255),
          jumping := True\<rparr>) \<and>
   \<not> register_invariant
       (example_ifeq_255\<lparr>registers := (registers example_ifeq_255)(PC \<mapsto> IntV 255)\<rparr>)"
proof -
  have i: "register_invariant example_ifeq_255"
    by (simp add: register_invariant_def all_addresses_def example_ifeq_255_def LEG_init_def)
  have f: "read_program example_ifeq_255 = Inr (OpV IFEQ, AddrV REG0, AddrV REG0, IntV 255)"
    by (simp add: read_program_def example_ifeq_255_def LEG_init_def)
  have h: "op_ifeq example_ifeq_255 (AddrV REG0) (AddrV REG0) (IntV 255) =
     Inr (example_ifeq_255\<lparr>registers := (registers example_ifeq_255)(PC \<mapsto> IntV 255),
            jumping := True\<rparr>)"
    by (simp add: op_ifeq_def)
  then have a: "apply_op example_ifeq_255 (OpV IFEQ) (AddrV REG0) (AddrV REG0) (IntV 255) =
     Inr (example_ifeq_255\<lparr>registers := (registers example_ifeq_255)(PC \<mapsto> IntV 255),
            jumping := True\<rparr>)"
    by (simp add: opcodes_def)
  have j: "\<not> jumping example_ifeq_255" by (simp add: example_ifeq_255_def LEG_init_def)
  from tick_jumped [OF f a] j have t: "tick example_ifeq_255 =
     Inr (example_ifeq_255\<lparr>registers := (registers example_ifeq_255)(PC \<mapsto> IntV 255)\<rparr>)"
    by simp
  have n: "\<not> register_invariant
       (example_ifeq_255\<lparr>registers := (registers example_ifeq_255)(PC \<mapsto> IntV 255),
          jumping := b\<rparr>)" for b
    by (simp add: register_invariant_def all_addresses_def)
  from n [of True] n [of "jumping example_ifeq_255"] i f h t show ?thesis by simp
qed

subsection \<open>The fetch near the end of the program\<close>

lemma py_index_in_range:
  "0 \<le> i \<Longrightarrow> i < int (length xs) \<Longrightarrow> py_index xs (IntV i) = Inr (xs ! nat i)"
  by simp

lemma py_index_beyond:
  "int (length xs) \<le> i \<Longrightarrow> py_index xs (IntV i) = Inl IndexError"
  by simp

lemma read_program_252_short:
  assumes "registers s PC = Some (IntV 252)" and "length (program s) < 256"
  shows "read_program s = Inl IndexError"
proof -
  from assms(2) have b: "py_index (program s) (IntV 255) = Inl IndexError"
    by (intro py_index_beyond) simp
  have e: "py_index (program s) (IntV i) = Inl IndexError \<or>
           (\<exists>v. py_index (program s) (IntV i) = Inr v)" if "0 \<le> i" for i
    using that by simp
  from e [of 252] e [of 253] e [of 254] b assms(1) show ?thesis
    by (auto simp: read_program_def simp del: py_index.simps)
qed

lemma read_program_252_long:
  assumes "registers s PC = Some (IntV 252)" and "256 \<le> length (program s)"
  shows "read_program s =
           Inr (program s ! 252, program s ! 253, program s ! 254, program s ! 255)"
proof -
  have "py_index (program s) (IntV i) = Inr (program s ! nat i)"
    if "0 \<le> i" "i < 256" for i
    using that assms(2) by (intro py_index_in_range) simp_all
  from this [of 252] this [of 253] this [of 254] this [of 255] assms(1) show ?thesis
    by (simp add: read_program_def del: py_index.simps)
qed

text \<open>
  Claim C8, as amended.  With PC at 252 the fetch reads the slots 252 to 255.  In a
  program of fewer than 256 slots the tick fails with an index error.  In a program
  of at least 256 slots the fetch returns these four slots, and when the fetched
  instruction returns without setting the jump flag and with PC still 252, the tick
  returns with PC equal to 1.
\<close>

theorem tick_at_252:
  assumes "registers s PC = Some (IntV 252)"
  shows "(length (program s) < 256 \<longrightarrow> tick s = Inl IndexError) \<and>
         (256 \<le> length (program s) \<longrightarrow>
            read_program s =
              Inr (program s ! 252, program s ! 253, program s ! 254, program s ! 255) \<and>
            (\<forall>s1. apply_op s (program s ! 252) (program s ! 253) (program s ! 254)
                     (program s ! 255) = Inr s1 \<and>
                  \<not> jumping s1 \<and> registers s1 PC = Some (IntV 252) \<longrightarrow>
                  tick s = Inr (s1\<lparr>registers := (registers s1)(PC \<mapsto> IntV 1)\<rparr>)))"
proof (intro conjI impI allI)
  assume "length (program s) < 256"
  from read_program_252_short [OF assms this] show "tick s = Inl IndexError"
    by (simp add: tick_def)
next
  assume l: "256 \<le> length (program s)"
  show f: "read_program s =
      Inr (program s ! 252, program s ! 253, program s ! 254, program s ! 255)"
    by (rule read_program_252_long [OF assms l])
  fix s1
  assume "apply_op s (program s ! 252) (program s ! 253) (program s ! 254)
            (program s ! 255) = Inr s1 \<and>
          \<not> jumping s1 \<and> registers s1 PC = Some (IntV 252)"
  then have a: "apply_op s (program s ! 252) (program s ! 253) (program s ! 254)
            (program s ! 255) = Inr s1"
    and j: "\<not> jumping s1" and pc: "registers s1 PC = Some (IntV 252)" by simp_all
  from tick_advance [OF f a j pc]
  show "tick s = Inr (s1\<lparr>registers := (registers s1)(PC \<mapsto> IntV 1)\<rparr>)" by simp
qed

lemma example_256_facts:
  "registers example_256 PC = Some (IntV 252)"
  "length (program example_256) = 256"
  "program example_256 ! 252 = IntV 0"
  "program example_256 ! 253 = IntV 0"
  "program example_256 ! 254 = IntV 0"
  "program example_256 ! 255 = IntV 0"
  "\<not> jumping example_256"
  by (simp_all add: example_256_def LEG_init_def)

lemma example_255_facts:
  "registers example_255 PC = Some (IntV 252)"
  "length (program example_255) = 255"
  "\<not> jumping example_255"
  by (simp_all add: example_255_def LEG_init_def)

theorem tick_at_252_witness:
  "registers example_256 PC = Some (IntV 252) \<and>
   256 \<le> length (program example_256) \<and>
   apply_op example_256 (IntV 0) (IntV 0) (IntV 0) (IntV 0) = Inr example_256 \<and>
   \<not> jumping example_256 \<and>
   read_program example_256 = Inr (IntV 0, IntV 0, IntV 0, IntV 0) \<and>
   tick example_256 = Inr (example_256\<lparr>registers := (registers example_256)(PC \<mapsto> IntV 1)\<rparr>) \<and>
   registers example_255 PC = Some (IntV 252) \<and>
   length (program example_255) < 256 \<and>
   tick example_255 = Inl IndexError"
proof -
  note f = example_256_facts
  note g = example_255_facts
  have l: "256 \<le> length (program example_256)" using f(2) by simp
  have k: "length (program example_255) < 256" using g(2) by simp
  have a: "apply_op example_256 (IntV 0) (IntV 0) (IntV 0) (IntV 0) = Inr example_256"
    by simp
  from tick_at_252 [OF f(1)] l a f
  have 1: "read_program example_256 = Inr (IntV 0, IntV 0, IntV 0, IntV 0) \<and>
    tick example_256 = Inr (example_256\<lparr>registers := (registers example_256)(PC \<mapsto> IntV 1)\<rparr>)"
    by simp
  from tick_at_252 [OF g(1)] k have 2: "tick example_255 = Inl IndexError" by blast
  from 1 2 f g l k a show ?thesis by simp
qed

text \<open>
  The claim C8 as stated fails: in a program of 255 slots with PC at 252, the read of
  slot 255 is out of range, so the fetch and the tick raise.
\<close>

theorem fetch_fails_at_252_of_255:
  "length (program example_255) = 255 \<and>
   registers example_255 PC = Some (IntV 252) \<and>
   \<not> jumping example_255 \<and>
   py_index (program example_255) (IntV 252) = Inr (IntV 0) \<and>
   py_index (program example_255) (IntV 255) = Inl IndexError \<and>
   read_program example_255 = Inl IndexError \<and>
   tick example_255 = Inl IndexError"
proof -
  note f = example_255_facts
  have p: "program example_255 = replicate 255 (IntV 0)"
    by (simp add: example_255_def LEG_init_def)
  have i: "py_index (program example_255) (IntV 252) = Inr (IntV 0)"
    "py_index (program example_255) (IntV 253) = Inr (IntV 0)"
    "py_index (program example_255) (IntV 254) = Inr (IntV 0)"
    "py_index (program example_255) (IntV 255) = Inl IndexError"
    by (simp_all add: p)
  have r: "read_program example_255 = Inl IndexError"
    using f(1) i by (simp add: read_program_def del: py_index.simps)
  then have "tick example_255 = Inl IndexError" by (simp add: tick_def)
  with f i r show ?thesis by simp
qed

end
